theory Spec2Isabelle
  imports Complex_Main
begin

section \<open>The event and alert engine of selfdrive/controls/lib/events.py\<close>

text \<open>
  The module keeps a global catalog \<open>EVENTS\<close> (event identifier to event type to alert or
  alert callback) and a class \<open>Events\<close> that collects the identifiers active in the current
  control cycle. Python floats are modelled as reals, Python integers as \<open>int\<close>, lists as
  lists, the outer dictionaries as maps and the inner dictionaries of the catalog as
  association lists (their keys are iterated over in \<open>to_msg\<close>).
\<close>

subsection \<open>Data\<close>

datatype Priority = LOWEST | LOWER | LOW | MID | HIGH | HIGHEST

text \<open>
  Modelled from the spec: the four enumerations of the cereal schema, which is not in the
  repository (status tag normal, userPrompt, critical; size tag none, small, mid, full;
  visual and audible cue). The cues list the enumerants this module names.
\<close>

datatype AlertStatus = normal | userPrompt | critical

datatype AlertSize = AlertSize_none | small | mid | full

datatype VisualAlert = VisualAlert_none | fcw | steerRequired | brakePressed

datatype AudibleAlert = AudibleAlert_none | chimeEngage | chimeDisengage | chimeError
  | chimePrompt | chimeWarning1 | chimeWarning2Repeat | chimeWarningRepeat
  | chimeSlowingDownSpeed

text \<open>An identifier is the raw value of a \<open>car.CarEvent.EventName\<close> enumerant.\<close>

type_synonym event_name = nat

text \<open>Event types are the strings of class \<open>ET\<close>.\<close>

type_synonym event_type = string

definition ENABLE :: event_type where "ENABLE = ''enable''"
definition PRE_ENABLE :: event_type where "PRE_ENABLE = ''preEnable''"
definition NO_ENTRY :: event_type where "NO_ENTRY = ''noEntry''"
definition WARNING :: event_type where "WARNING = ''warning''"
definition USER_DISABLE :: event_type where "USER_DISABLE = ''userDisable''"
definition SOFT_DISABLE :: event_type where "SOFT_DISABLE = ''softDisable''"
definition IMMEDIATE_DISABLE :: event_type where "IMMEDIATE_DISABLE = ''immediateDisable''"
definition PERMANENT :: event_type where "PERMANENT = ''permanent''"

text \<open>
  Class \<open>Alert\<close>: the twelve constructor arguments and the three attributes the constructor
  initialises (\<open>start_time = 0.\<close>, \<open>alert_type = ""\<close>, \<open>event_type = None\<close>).
\<close>

record Alert =
  alert_text_1 :: string
  alert_text_2 :: string
  alert_status :: AlertStatus
  alert_size :: AlertSize
  alert_priority :: Priority
  visual_alert :: VisualAlert
  audible_alert :: AudibleAlert
  duration_sound :: real
  duration_hud_alert :: real
  duration_text :: real
  alert_rate :: real
  creation_delay :: real
  start_time :: real
  alert_type :: string
  event_type :: "event_type option"

definition new_Alert :: "string \<Rightarrow> string \<Rightarrow> AlertStatus \<Rightarrow> AlertSize \<Rightarrow> Priority \<Rightarrow>
    VisualAlert \<Rightarrow> AudibleAlert \<Rightarrow> real \<Rightarrow> real \<Rightarrow> real \<Rightarrow> real \<Rightarrow> real \<Rightarrow> Alert" where
  "new_Alert t1 t2 status sz prio visual audible d_sound d_hud d_text rate delay =
     \<lparr> alert_text_1 = t1, alert_text_2 = t2, alert_status = status, alert_size = sz,
       alert_priority = prio, visual_alert = visual, audible_alert = audible,
       duration_sound = d_sound, duration_hud_alert = d_hud, duration_text = d_text,
       alert_rate = rate, creation_delay = delay,
       start_time = 0, alert_type = [], event_type = None \<rparr>"

text \<open>\<open>EngagementAlert(audible_alert)\<close>, a subclass that only fixes constructor arguments.\<close>

definition EngagementAlert :: "AudibleAlert \<Rightarrow> Alert" where
  "EngagementAlert audible =
     new_Alert [] [] normal AlertSize_none MID VisualAlert_none audible (2 / 10) 0 0 0 0"

text \<open>
  What raising looks like in the model: a \<open>KeyError\<close> of a dictionary subscript, or
  whatever an alert callback raises.
\<close>

datatype error = KeyError | CallbackError

text \<open>
  A catalog entry is an \<open>Alert\<close> object or a callable that is applied to the unpacked
  \<open>callback_args\<close>. The type \<open>'v\<close> is the type of the values in that argument list.
\<close>

datatype 'v entry = Static Alert | Callback "'v list \<Rightarrow> error + Alert"

type_synonym 'v catalog = "event_name \<rightharpoonup> (event_type \<times> 'v entry) list"

text \<open>
  Class \<open>Events\<close>: the list of active identifiers, the list of static identifiers and the
  dictionary \<open>events_prev\<close>.
\<close>

record Events =
  events :: "event_name list"
  static_events :: "event_name list"
  events_prev :: "event_name \<rightharpoonup> int"

text \<open>
  Modelled from the spec: the message type \<open>car.CarEvent\<close>, whose schema (cereal) is not in
  the repository. A record carries the identifier and one boolean flag per event type;
  \<open>new_message()\<close> has every flag false, \<open>name.raw\<close> reads the identifier back.
\<close>

record CarEvent =
  name :: event_name
  flags :: "event_type \<Rightarrow> bool"

definition new_message :: CarEvent where
  "new_message = \<lparr> name = 0, flags = (\<lambda>t. False) \<rparr>"

subsection \<open>Operations of class Events\<close>

text \<open>\<open>__init__\<close>: \<open>events_prev = dict.fromkeys(EVENTS.keys(), 0)\<close>.\<close>

definition Events_init :: "'v catalog \<Rightarrow> Events" where
  "Events_init EVENTS =
     \<lparr> events = [], static_events = [],
       events_prev = (\<lambda>k. case EVENTS k of None \<Rightarrow> None | Some d \<Rightarrow> Some 0) \<rparr>"

definition names :: "Events \<Rightarrow> event_name list" where
  "names s = events s"

definition len :: "Events \<Rightarrow> nat" where
  "len s = length (events s)"

definition add :: "event_name \<Rightarrow> bool \<Rightarrow> Events \<Rightarrow> Events" where
  "add e static s =
     (let s1 = (if static then s\<lparr>static_events := static_events s @ [e]\<rparr> else s)
      in s1\<lparr>events := events s1 @ [e]\<rparr>)"

definition clear :: "Events \<Rightarrow> Events" where
  "clear s =
     s\<lparr> events_prev :=
          (\<lambda>k. case events_prev s k of
                 None \<Rightarrow> None
               | Some v \<Rightarrow> Some (if k \<in> set (events s) then v + 1 else 0)),
        events := static_events s \<rparr>"

text \<open>\<open>EVENTS.get(e, {})\<close>.\<close>

definition get_types :: "'v catalog \<Rightarrow> event_name \<Rightarrow> (event_type \<times> 'v entry) list" where
  "get_types EVENTS e = (case EVENTS e of None \<Rightarrow> [] | Some d \<Rightarrow> d)"

fun any_loop :: "'v catalog \<Rightarrow> event_type \<Rightarrow> event_name list \<Rightarrow> bool" where
  "any_loop EVENTS et [] = False"
| "any_loop EVENTS et (e # es) =
     (if et \<in> set (map fst (get_types EVENTS e)) then True else any_loop EVENTS et es)"

definition any :: "'v catalog \<Rightarrow> Events \<Rightarrow> event_type \<Rightarrow> bool" where
  "any EVENTS s et = any_loop EVENTS et (events s)"

text \<open>
  \<open>create_alerts\<close> writes \<open>alert_type\<close> and \<open>event_type\<close> into the alert it is about to
  return. For a static entry that alert is the object held by the catalog, so the catalog
  is part of the state the method changes; for a callback it is the object the callback
  returned. The list returned holds the alerts as they are when they are appended: an
  object of the catalog sits under one identifier and one event type, every write to it
  within a call stores the same two values, so its content when the call returns is its
  content when it was appended.
\<close>

definition stamp :: "string \<Rightarrow> event_type \<Rightarrow> Alert \<Rightarrow> Alert" where
  "stamp nm et a = a\<lparr> alert_type := nm @ ''/'' @ et, event_type := Some et \<rparr>"

fun set_entry :: "event_type \<Rightarrow> 'v entry \<Rightarrow> (event_type \<times> 'v entry) list \<Rightarrow>
    (event_type \<times> 'v entry) list" where
  "set_entry et x [] = []"
| "set_entry et x ((k, v) # d) = (if k = et then (k, x) # d else (k, v) # set_entry et x d)"

text \<open>
  Lines 77 to 79: the entry itself when it is an \<open>Alert\<close>, otherwise the result of
  calling it with the unpacked arguments (which may raise).
\<close>

definition resolve :: "'v entry \<Rightarrow> 'v list \<Rightarrow> error + Alert" where
  "resolve x args = (case x of Static a \<Rightarrow> Inr a | Callback f \<Rightarrow> f args)"

text \<open>
  The inner loop \<open>for et in event_types\<close> for one identifier \<open>e\<close>. \<open>DT_CTRL\<close> (from
  \<open>common.realtime\<close>) and \<open>EVENT_NAME\<close> (built from the cereal schema) are parameters.
  The result pairs what the loop returns or raises with the catalog as the loop leaves it.
\<close>

fun create_alerts_types :: "real \<Rightarrow> (event_name \<rightharpoonup> string) \<Rightarrow> (event_name \<rightharpoonup> int) \<Rightarrow>
    'v list \<Rightarrow> event_name \<Rightarrow> event_type list \<Rightarrow> Alert list \<Rightarrow> 'v catalog \<Rightarrow>
    (error + Alert list) \<times> 'v catalog" where
  "create_alerts_types DT_CTRL EVENT_NAME prev args e [] ret EVENTS = (Inr ret, EVENTS)"
| "create_alerts_types DT_CTRL EVENT_NAME prev args e (et # ets) ret EVENTS =
     (case EVENTS e of
        None \<Rightarrow> (Inl KeyError, EVENTS)
      | Some d \<Rightarrow>
         (case map_of d et of
            None \<Rightarrow> create_alerts_types DT_CTRL EVENT_NAME prev args e ets ret EVENTS
          | Some x \<Rightarrow>
             (case resolve x args of
                Inl err \<Rightarrow> (Inl err, EVENTS)
              | Inr alert \<Rightarrow>
                 (case prev e of
                    None \<Rightarrow> (Inl KeyError, EVENTS)
                  | Some v \<Rightarrow>
                     if DT_CTRL * (of_int v + 1) \<ge> creation_delay alert then
                       (case EVENT_NAME e of
                          None \<Rightarrow> (Inl KeyError, EVENTS)
                        | Some nm \<Rightarrow>
                           create_alerts_types DT_CTRL EVENT_NAME prev args e ets
                             (ret @ [stamp nm et alert])
                             (case x of
                                Static a \<Rightarrow>
                                  EVENTS(e \<mapsto> set_entry et (Static (stamp nm et alert)) d)
                              | Callback f \<Rightarrow> EVENTS))
                     else create_alerts_types DT_CTRL EVENT_NAME prev args e ets ret EVENTS))))"

text \<open>The outer loop \<open>for e in self.events\<close>; \<open>EVENTS[e]\<close> raises for an unknown key.\<close>

fun create_alerts_loop :: "real \<Rightarrow> (event_name \<rightharpoonup> string) \<Rightarrow> (event_name \<rightharpoonup> int) \<Rightarrow>
    'v list \<Rightarrow> event_type list \<Rightarrow> event_name list \<Rightarrow> Alert list \<Rightarrow> 'v catalog \<Rightarrow>
    (error + Alert list) \<times> 'v catalog" where
  "create_alerts_loop DT_CTRL EVENT_NAME prev args ets [] ret EVENTS = (Inr ret, EVENTS)"
| "create_alerts_loop DT_CTRL EVENT_NAME prev args ets (e # es) ret EVENTS =
     (case EVENTS e of
        None \<Rightarrow> (Inl KeyError, EVENTS)
      | Some d \<Rightarrow>
         (case create_alerts_types DT_CTRL EVENT_NAME prev args e ets ret EVENTS of
            (Inl err, EVENTS') \<Rightarrow> (Inl err, EVENTS')
          | (Inr ret', EVENTS') \<Rightarrow>
              create_alerts_loop DT_CTRL EVENT_NAME prev args ets es ret' EVENTS'))"

definition create_alerts :: "real \<Rightarrow> (event_name \<rightharpoonup> string) \<Rightarrow> 'v catalog \<Rightarrow> Events \<Rightarrow>
    event_type list \<Rightarrow> 'v list option \<Rightarrow> (error + Alert list) \<times> 'v catalog" where
  "create_alerts DT_CTRL EVENT_NAME EVENTS s event_types callback_args =
     (let args = (case callback_args of None \<Rightarrow> [] | Some xs \<Rightarrow> xs)
      in create_alerts_loop DT_CTRL EVENT_NAME (events_prev s) args event_types
           (events s) [] EVENTS)"

text \<open>\<open>add_from_msg\<close> appends \<open>e.name.raw\<close> for every message.\<close>

fun add_from_msg :: "CarEvent list \<Rightarrow> Events \<Rightarrow> Events" where
  "add_from_msg [] s = s"
| "add_from_msg (m # ms) s = add_from_msg ms (s\<lparr>events := events s @ [name m]\<rparr>)"

text \<open>\<open>to_msg\<close>: one new message per list entry, \<open>setattr(event, event_type, True)\<close> per key.\<close>

fun set_flags :: "event_type list \<Rightarrow> CarEvent \<Rightarrow> CarEvent" where
  "set_flags [] ev = ev"
| "set_flags (t # ts) ev = set_flags ts (ev\<lparr>flags := (flags ev)(t := True)\<rparr>)"

fun to_msg_loop :: "'v catalog \<Rightarrow> event_name list \<Rightarrow> CarEvent list \<Rightarrow> CarEvent list" where
  "to_msg_loop EVENTS [] ret = ret"
| "to_msg_loop EVENTS (e # es) ret =
     to_msg_loop EVENTS es
       (ret @ [set_flags (map fst (get_types EVENTS e)) (new_message\<lparr>name := e\<rparr>)])"

definition to_msg :: "'v catalog \<Rightarrow> Events \<Rightarrow> CarEvent list" where
  "to_msg EVENTS s = to_msg_loop EVENTS (events s) []"

subsection \<open>The control cycle\<close>

text \<open>
  One cycle of the caller: \<open>clear()\<close>, then one \<open>add\<close> per identifier reported in this cycle.
\<close>

definition tick :: "event_name list \<Rightarrow> Events \<Rightarrow> Events" where
  "tick batch s = fold (\<lambda>e. add e False) batch (clear s)"

definition run :: "event_name list list \<Rightarrow> Events \<Rightarrow> Events" where
  "run batches s = fold tick batches s"

text \<open>
  Cycles that also query: each cycle clears, adds its batch and calls \<open>create_alerts\<close>
  on the catalog as the previous cycle left it. The result lists what each call returned
  or raised.
\<close>

fun cycles :: "real \<Rightarrow> (event_name \<rightharpoonup> string) \<Rightarrow> event_type list \<Rightarrow> 'v list option \<Rightarrow>
    event_name list list \<Rightarrow> Events \<Rightarrow> 'v catalog \<Rightarrow> (error + Alert list) list" where
  "cycles DT_CTRL EVENT_NAME ets args [] s EVENTS = []"
| "cycles DT_CTRL EVENT_NAME ets args (b # bs) s EVENTS =
     fst (create_alerts DT_CTRL EVENT_NAME EVENTS (tick b s) ets args) #
     cycles DT_CTRL EVENT_NAME ets args bs (tick b s)
       (snd (create_alerts DT_CTRL EVENT_NAME EVENTS (tick b s) ets args))"

text \<open>The calls that change an \<open>Events\<close> object, for statements about any sequence of them.\<close>

datatype op = Add event_name bool | Clear | AddFromMsg "CarEvent list"

fun apply_op :: "op \<Rightarrow> Events \<Rightarrow> Events" where
  "apply_op (Add e static) s = add e static s"
| "apply_op Clear s = clear s"
| "apply_op (AddFromMsg ms) s = add_from_msg ms s"

subsection \<open>Catalogs that differ only in what create_alerts writes\<close>

definition unstamped :: "Alert \<Rightarrow> Alert" where
  "unstamped a = a\<lparr> alert_type := [], event_type := None \<rparr>"

fun same_entry :: "'v entry \<Rightarrow> 'v entry \<Rightarrow> bool" where
  "same_entry (Static a) (Static b) = (unstamped a = unstamped b)"
| "same_entry (Callback f) (Callback g) = (f = g)"
| "same_entry (Static a) (Callback g) = False"
| "same_entry (Callback f) (Static b) = False"

definition same_types :: "(event_type \<times> 'v entry) list \<Rightarrow> (event_type \<times> 'v entry) list \<Rightarrow> bool"
  where
  "same_types d d' = list_all2 (\<lambda>p q. fst p = fst q \<and> same_entry (snd p) (snd q)) d d'"

definition same_catalog :: "'v catalog \<Rightarrow> 'v catalog \<Rightarrow> bool" where
  "same_catalog C C' = (\<forall>e. rel_option same_types (C e) (C' e))"

subsection \<open>What one identifier contributes to the list create_alerts returns\<close>

text \<open>
  Lines 76 to 84 for one identifier and one event type, read without the writes: when no
  step raises, the pass appends nothing (no entry for the event type, or the creation
  delay has not passed) or the stamped alert. Where a step would raise the value is the
  empty list; the theorems use it only for calls that return.
\<close>

definition alert_for :: "real \<Rightarrow> (event_name \<rightharpoonup> string) \<Rightarrow> (event_name \<rightharpoonup> int) \<Rightarrow> 'v list \<Rightarrow>
    'v catalog \<Rightarrow> event_name \<Rightarrow> event_type \<Rightarrow> Alert list" where
  "alert_for DT_CTRL EVENT_NAME prev args EVENTS e et =
     (case EVENTS e of
        None \<Rightarrow> []
      | Some d \<Rightarrow>
         (case map_of d et of
            None \<Rightarrow> []
          | Some x \<Rightarrow>
             (case resolve x args of
                Inl err \<Rightarrow> []
              | Inr alert \<Rightarrow>
                 (case prev e of
                    None \<Rightarrow> []
                  | Some v \<Rightarrow>
                     if DT_CTRL * (of_int v + 1) \<ge> creation_delay alert
                     then (case EVENT_NAME e of None \<Rightarrow> [] | Some nm \<Rightarrow> [stamp nm et alert])
                     else []))))"

text \<open>
  A condition under which no step of lines 74 to 82 raises for identifier \<open>e\<close>: it is a key
  of \<open>EVENTS\<close>, of \<open>events_prev\<close> and of \<open>EVENT_NAME\<close>, and each of its entries under a
  requested event type is an \<open>Alert\<close> or a callback that returns one for the arguments.
\<close>

definition no_raise :: "(event_name \<rightharpoonup> string) \<Rightarrow> (event_name \<rightharpoonup> int) \<Rightarrow> 'v list \<Rightarrow> 'v catalog \<Rightarrow>
    event_type list \<Rightarrow> event_name \<Rightarrow> bool" where
  "no_raise EVENT_NAME prev args EVENTS ets e =
     (EVENT_NAME e \<noteq> None \<and> prev e \<noteq> None \<and>
      (case EVENTS e of
         None \<Rightarrow> False
       | Some d \<Rightarrow>
          list_all (\<lambda>et. case map_of d et of
                           None \<Rightarrow> True
                         | Some x \<Rightarrow> (case resolve x args of Inl err \<Rightarrow> False | Inr a \<Rightarrow> True))
            ets))"

text \<open>The same for a list of identifiers and a list of event types, in the order of the loops.\<close>

definition alerts_for :: "real \<Rightarrow> (event_name \<rightharpoonup> string) \<Rightarrow> (event_name \<rightharpoonup> int) \<Rightarrow> 'v list \<Rightarrow>
    'v catalog \<Rightarrow> event_type list \<Rightarrow> event_name list \<Rightarrow> Alert list" where
  "alerts_for DT_CTRL EVENT_NAME prev args EVENTS ets es =
     concat (map (\<lambda>e. concat (map (alert_for DT_CTRL EVENT_NAME prev args EVENTS e) ets)) es)"

subsection \<open>The queries as operations on the catalog\<close>

text \<open>
  \<open>any\<close> and \<open>to_msg\<close> with the catalog passed through every iteration of their loops, as
  \<open>create_alerts\<close> has it: each iteration reads \<open>EVENTS.get(e, {})\<close> and assigns nothing in
  the catalog.
\<close>

fun any_loop_st :: "'v catalog \<Rightarrow> event_type \<Rightarrow> event_name list \<Rightarrow> bool \<times> 'v catalog" where
  "any_loop_st EVENTS et [] = (False, EVENTS)"
| "any_loop_st EVENTS et (e # es) =
     (if et \<in> set (map fst (get_types EVENTS e)) then (True, EVENTS)
      else any_loop_st EVENTS et es)"

definition any_st :: "'v catalog \<Rightarrow> Events \<Rightarrow> event_type \<Rightarrow> bool \<times> 'v catalog" where
  "any_st EVENTS s et = any_loop_st EVENTS et (events s)"

fun to_msg_loop_st :: "'v catalog \<Rightarrow> event_name list \<Rightarrow> CarEvent list \<Rightarrow>
    CarEvent list \<times> 'v catalog" where
  "to_msg_loop_st EVENTS [] ret = (ret, EVENTS)"
| "to_msg_loop_st EVENTS (e # es) ret =
     to_msg_loop_st EVENTS es
       (ret @ [set_flags (map fst (get_types EVENTS e)) (new_message\<lparr>name := e\<rparr>)])"

definition to_msg_st :: "'v catalog \<Rightarrow> Events \<Rightarrow> CarEvent list \<times> 'v catalog" where
  "to_msg_st EVENTS s = to_msg_loop_st EVENTS (events s) []"

text \<open>
  What a call of \<open>create_alerts\<close> may have done to one entry of identifier \<open>e\<close>: nothing, or,
  when \<open>e\<close> is active, the event type is requested, the entry is an \<open>Alert\<close> and its creation
  delay has passed, the two assignments of lines 82 and 83.
\<close>

definition entry_after :: "real \<Rightarrow> (event_name \<rightharpoonup> string) \<Rightarrow> Events \<Rightarrow> event_type list \<Rightarrow>
    event_name \<Rightarrow> event_type \<times> 'v entry \<Rightarrow> event_type \<times> 'v entry \<Rightarrow> bool" where
  "entry_after DT_CTRL EVENT_NAME s ets e p q =
     (fst q = fst p \<and>
      (snd q = snd p \<or>
       (e \<in> set (events s) \<and> fst p \<in> set ets \<and>
        (\<exists>a nm v. snd p = Static a \<and> EVENT_NAME e = Some nm \<and> events_prev s e = Some v \<and>
           creation_delay a \<le> DT_CTRL * (of_int v + 1) \<and>
           snd q = Static (stamp nm (fst p) a)))))"

definition catalog_after :: "real \<Rightarrow> (event_name \<rightharpoonup> string) \<Rightarrow> Events \<Rightarrow> event_type list \<Rightarrow>
    'v catalog \<Rightarrow> 'v catalog \<Rightarrow> bool" where
  "catalog_after DT_CTRL EVENT_NAME s ets C C' =
     (\<forall>e. rel_option (list_all2 (entry_after DT_CTRL EVENT_NAME s ets e)) (C e) (C' e))"

subsection \<open>An excerpt of the catalog\<close>

text \<open>
  Six entries of \<open>EVENTS\<close>, used for concrete runs. The numbers of the enumerants belong
  to the cereal schema; the ones below stand for them. The two text lines of
  \<open>gasPressed\<close>, \<open>preLaneChangeLeft\<close> and \<open>preLaneChangeRight\<close> are not ASCII in the source
  and are replaced by English ones; no operation of \<open>Events\<close> reads them.
\<close>

definition pcmEnable :: event_name where "pcmEnable = 23"
definition pcmDisable :: event_name where "pcmDisable = 24"
definition preLaneChangeLeft :: event_name where "preLaneChangeLeft = 57"
definition preLaneChangeRight :: event_name where "preLaneChangeRight = 58"
definition gasPressed :: event_name where "gasPressed = 60"
definition sccSmootherStatus :: event_name where "sccSmootherStatus = 90"

definition EVENTS_excerpt :: "'v catalog" where
  "EVENTS_excerpt =
     [ gasPressed \<mapsto>
         [(PRE_ENABLE, Static (new_Alert ''gas pressed'' [] normal small LOWEST
             VisualAlert_none AudibleAlert_none 0 0 (1 / 10) 0 1))],
       preLaneChangeLeft \<mapsto>
         [(WARNING, Static (new_Alert ''lane change left'' ''check surroundings'' normal mid
             LOW steerRequired AudibleAlert_none 0 (1 / 10) (1 / 10) (75 / 100) 0))],
       preLaneChangeRight \<mapsto>
         [(WARNING, Static (new_Alert ''lane change right'' ''check surroundings'' normal mid
             LOW steerRequired AudibleAlert_none 0 (1 / 10) (1 / 10) (75 / 100) 0))],
       pcmEnable \<mapsto> [(ENABLE, Static (EngagementAlert chimeEngage))],
       pcmDisable \<mapsto> [(USER_DISABLE, Static (EngagementAlert chimeDisengage))],
       sccSmootherStatus \<mapsto>
         [(PERMANENT, Static (new_Alert [] [] normal AlertSize_none HIGH VisualAlert_none
             chimeWarning1 (4 / 10) (1 / 10) (1 / 10) 0 0))] ]"

definition EVENT_NAME_excerpt :: "event_name \<rightharpoonup> string" where
  "EVENT_NAME_excerpt =
     [ gasPressed \<mapsto> ''gasPressed'', preLaneChangeLeft \<mapsto> ''preLaneChangeLeft'',
       preLaneChangeRight \<mapsto> ''preLaneChangeRight'',
       pcmEnable \<mapsto> ''pcmEnable'', pcmDisable \<mapsto> ''pcmDisable'',
       sccSmootherStatus \<mapsto> ''sccSmootherStatus'' ]"

section \<open>Properties\<close>

subsection \<open>What each operation does to the fields\<close>

lemma events_add [simp]: "events (add e st s) = events s @ [e]"
  by (simp add: add_def Let_def)

lemma static_events_add [simp]:
  "static_events (add e st s) = (if st then static_events s @ [e] else static_events s)"
  by (simp add: add_def Let_def)

lemma events_prev_add [simp]: "events_prev (add e st s) = events_prev s"
  by (simp add: add_def Let_def)

lemma events_clear [simp]: "events (clear s) = static_events s"
  by (simp add: clear_def)

lemma static_events_clear [simp]: "static_events (clear s) = static_events s"
  by (simp add: clear_def)

lemma events_prev_clear:
  "events_prev (clear s) k =
     (case events_prev s k of None \<Rightarrow> None
      | Some v \<Rightarrow> Some (if k \<in> set (events s) then v + 1 else 0))"
  by (simp add: clear_def)

lemma fold_add_events [simp]: "events (fold (\<lambda>e. add e False) b s) = events s @ b"
  by (induction b arbitrary: s) simp_all

lemma fold_add_static [simp]: "static_events (fold (\<lambda>e. add e False) b s) = static_events s"
  by (induction b arbitrary: s) simp_all

lemma fold_add_prev [simp]: "events_prev (fold (\<lambda>e. add e False) b s) = events_prev s"
  by (induction b arbitrary: s) simp_all

lemma events_tick [simp]: "events (tick b s) = static_events s @ b"
  by (simp add: tick_def)

lemma static_events_tick [simp]: "static_events (tick b s) = static_events s"
  by (simp add: tick_def)

lemma events_prev_tick [simp]: "events_prev (tick b s) = events_prev (clear s)"
  by (simp add: tick_def)

lemma run_Nil [simp]: "run [] s = s"
  by (simp add: run_def)

lemma run_Cons [simp]: "run (b # bs) s = run bs (tick b s)"
  by (simp add: run_def)

lemma run_snoc [simp]: "run (bs @ [b]) s = tick b (run bs s)"
  by (simp add: run_def)

lemma static_events_run [simp]: "static_events (run bs s) = static_events s"
  by (induction bs arbitrary: s) simp_all

lemma static_events_init [simp]: "static_events (Events_init EVENTS) = []"
  by (simp add: Events_init_def)

lemma events_init [simp]: "events (Events_init EVENTS) = []"
  by (simp add: Events_init_def)

lemma add_from_msg_events: "events (add_from_msg ms s) = events s @ map name ms"
  by (induction ms arbitrary: s) simp_all

lemma static_events_add_from_msg [simp]: "static_events (add_from_msg ms s) = static_events s"
  by (induction ms arbitrary: s) simp_all

lemma events_prev_add_from_msg [simp]: "events_prev (add_from_msg ms s) = events_prev s"
  by (induction ms arbitrary: s) simp_all

lemmas excerpt_ids =
  pcmEnable_def pcmDisable_def preLaneChangeLeft_def preLaneChangeRight_def gasPressed_def
  sccSmootherStatus_def

lemmas excerpt_types =
  ENABLE_def PRE_ENABLE_def NO_ENTRY_def WARNING_def USER_DISABLE_def SOFT_DISABLE_def
  IMMEDIATE_DISABLE_def PERMANENT_def

subsection \<open>The loops of any and to_msg\<close>

lemma any_loop_get_types:
  "any_loop EVENTS et es \<longleftrightarrow> (\<exists>e. e \<in> set es \<and> et \<in> fst ` set (get_types EVENTS e))"
  by (induction es) auto

lemma in_get_types:
  "et \<in> fst ` set (get_types EVENTS e) \<longleftrightarrow> (\<exists>d. EVENTS e = Some d \<and> et \<in> fst ` set d)"
  by (cases "EVENTS e") (simp_all add: get_types_def)

lemma any_cong_set: "set (events s) = set (events s') \<Longrightarrow> any EVENTS s et = any EVENTS s' et"
  by (simp add: any_def any_loop_get_types)

lemma flags_set_flags: "flags (set_flags ts ev) t \<longleftrightarrow> flags ev t \<or> t \<in> set ts"
  by (induction ts arbitrary: ev) auto

lemma name_set_flags [simp]: "name (set_flags ts ev) = name ev"
  by (induction ts arbitrary: ev) auto

lemma to_msg_loop_eq:
  "to_msg_loop EVENTS es ret =
     ret @ map (\<lambda>e. \<lparr> name = e, flags = (\<lambda>t. t \<in> fst ` set (get_types EVENTS e)) \<rparr>) es"
proof (induction es arbitrary: ret)
  case Nil
  show ?case by simp
next
  case (Cons e es)
  have "set_flags (map fst (get_types EVENTS e)) (new_message\<lparr>name := e\<rparr>) =
        \<lparr> name = e, flags = (\<lambda>t. t \<in> fst ` set (get_types EVENTS e)) \<rparr>"
    by (rule CarEvent.equality) (simp_all add: flags_set_flags new_message_def fun_eq_iff)
  then show ?case using Cons.IH by simp
qed

lemma to_msg_names: "map name (to_msg EVENTS s) = events s"
  by (simp add: to_msg_def to_msg_loop_eq comp_def)

lemma to_msg_length: "length (to_msg EVENTS s) = length (events s)"
  by (simp add: to_msg_def to_msg_loop_eq)

subsection \<open>The counter events_prev\<close>

text \<open>
  C1, as the spec states it: a reset adds 1 to the counter of an identifier that was not
  active and sets it to 0 for one that was, so that an identifier active in cycles 1 to 3,
  inactive in cycle 4 and active in cycle 5 shows 0, 0, 0, 1, 0 over the five resets. The
  code does the opposite. For \<open>gasPressed\<close>, active before a reset, the counter goes from 0 to
  1, and the five resets that follow the five cycles show 1, 2, 3, 0, 1.
\<close>

theorem C1_counterexample:
  "events_prev (clear (add gasPressed False (Events_init (EVENTS_excerpt :: unit catalog))))
     gasPressed \<noteq> Some 0 \<and>
   [events_prev (clear (run [[gasPressed]]
      (Events_init (EVENTS_excerpt :: unit catalog)))) gasPressed,
    events_prev (clear (run [[gasPressed], [gasPressed]]
      (Events_init (EVENTS_excerpt :: unit catalog)))) gasPressed,
    events_prev (clear (run [[gasPressed], [gasPressed], [gasPressed]]
      (Events_init (EVENTS_excerpt :: unit catalog)))) gasPressed,
    events_prev (clear (run [[gasPressed], [gasPressed], [gasPressed], []]
      (Events_init (EVENTS_excerpt :: unit catalog)))) gasPressed,
    events_prev (clear (run [[gasPressed], [gasPressed], [gasPressed], [], [gasPressed]]
      (Events_init (EVENTS_excerpt :: unit catalog)))) gasPressed]
   \<noteq> [Some 0, Some 0, Some 0, Some 1, Some 0]"
  by (simp add: events_prev_clear Events_init_def EVENTS_excerpt_def excerpt_ids)

text \<open>
  C1, amended: \<open>clear\<close> adds 1 to the counter of every catalog identifier that is in the
  active list and sets the counter of every other catalog identifier to 0; identifiers
  without a counter get none. For an identifier of the catalog that is reported in cycles
  1 to 3, not in cycle 4 and again in cycle 5 (whatever else is reported), the resets that
  follow the five cycles leave the counter at 1, 2, 3, 0, 1.
\<close>

theorem C1_clear_counts_active_cycles:
  assumes "EVENTS e = Some d"
    and "e \<in> set b1" and "e \<in> set b2" and "e \<in> set b3" and "e \<notin> set b4" and "e \<in> set b5"
  shows "events_prev (clear s) k =
           (case events_prev s k of None \<Rightarrow> None
            | Some v \<Rightarrow> Some (if k \<in> set (events s) then v + 1 else 0)) \<and>
         [events_prev (clear (run [b1] (Events_init EVENTS))) e,
          events_prev (clear (run [b1, b2] (Events_init EVENTS))) e,
          events_prev (clear (run [b1, b2, b3] (Events_init EVENTS))) e,
          events_prev (clear (run [b1, b2, b3, b4] (Events_init EVENTS))) e,
          events_prev (clear (run [b1, b2, b3, b4, b5] (Events_init EVENTS))) e]
         = [Some 1, Some 2, Some 3, Some 0, Some 1]"
  using assms by (simp add: events_prev_clear Events_init_def)

theorem C1_clear_counts_active_cycles_witness:
  "(EVENTS_excerpt :: unit catalog) gasPressed \<noteq> None \<and>
   events_prev (clear (add pcmEnable False (Events_init (EVENTS_excerpt :: unit catalog))))
     pcmEnable = Some 1 \<and>
   [events_prev (clear (run [[gasPressed, pcmEnable]]
      (Events_init (EVENTS_excerpt :: unit catalog)))) gasPressed,
    events_prev (clear (run [[gasPressed, pcmEnable], [gasPressed]]
      (Events_init (EVENTS_excerpt :: unit catalog)))) gasPressed,
    events_prev (clear (run [[gasPressed, pcmEnable], [gasPressed], [gasPressed]]
      (Events_init (EVENTS_excerpt :: unit catalog)))) gasPressed,
    events_prev (clear (run [[gasPressed, pcmEnable], [gasPressed], [gasPressed], [pcmDisable]]
      (Events_init (EVENTS_excerpt :: unit catalog)))) gasPressed,
    events_prev (clear (run [[gasPressed, pcmEnable], [gasPressed], [gasPressed], [pcmDisable],
      [gasPressed]] (Events_init (EVENTS_excerpt :: unit catalog)))) gasPressed]
   = [Some 1, Some 2, Some 3, Some 0, Some 1]"
proof -
  have known: "(EVENTS_excerpt :: unit catalog) gasPressed =
      Some [(PRE_ENABLE, Static (new_Alert ''gas pressed'' [] normal small LOWEST
             VisualAlert_none AudibleAlert_none 0 0 (1 / 10) 0 1))]"
    by (simp add: EVENTS_excerpt_def excerpt_ids)
  have notin: "gasPressed \<notin> set [pcmDisable]"
    by (simp add: excerpt_ids)
  have before: "events_prev (add pcmEnable False (Events_init (EVENTS_excerpt :: unit catalog)))
      pcmEnable = Some 0"
    by (simp add: Events_init_def EVENTS_excerpt_def excerpt_ids)
  note inst = C1_clear_counts_active_cycles [where EVENTS = "EVENTS_excerpt :: unit catalog"
      and e = gasPressed and ?b1.0 = "[gasPressed, pcmEnable]" and ?b2.0 = "[gasPressed]"
      and ?b3.0 = "[gasPressed]" and ?b4.0 = "[pcmDisable]" and ?b5.0 = "[gasPressed]"
      and s = "add pcmEnable False (Events_init (EVENTS_excerpt :: unit catalog))"
      and k = pcmEnable, OF known]
  show ?thesis
    using inst notin known before by simp
qed

subsection \<open>Static events\<close>

lemma static_kept:
  "e \<in> set (static_events s) \<and> e \<in> set (events s) \<Longrightarrow>
   e \<in> set (static_events (apply_op x s)) \<and> e \<in> set (events (apply_op x s))"
  by (cases x) (simp_all add: add_from_msg_events)

lemma static_kept_fold:
  "e \<in> set (static_events s) \<and> e \<in> set (events s) \<Longrightarrow>
   e \<in> set (static_events (fold apply_op ops s)) \<and> e \<in> set (events (fold apply_op ops s))"
proof (induction ops arbitrary: s)
  case Nil
  then show ?case by simp
next
  case (Cons x ops)
  from Cons.prems
  have "e \<in> set (static_events (apply_op x s)) \<and> e \<in> set (events (apply_op x s))"
    by (rule static_kept)
  then show ?case using Cons.IH by simp
qed

text \<open>
  C4: after \<open>add(e, static=True)\<close> the identifier \<open>e\<close> is in the active list after any
  sequence of later calls that change the object (\<open>clear\<close>, \<open>add\<close> of any identifier with
  either flag, \<open>add_from_msg\<close>), hence after any number of \<open>clear\<close> calls, whether or not
  \<open>e\<close> is added again.
\<close>

theorem C4_static_event_stays_active:
  "e \<in> set (events (fold apply_op ops (add e True s)))"
proof -
  have "e \<in> set (static_events (add e True s)) \<and> e \<in> set (events (add e True s))"
    by simp
  then show ?thesis using static_kept_fold by blast
qed

theorem C4_static_event_stays_active_witness:
  "pcmEnable \<in> set (events (fold apply_op [Clear, Clear, Add gasPressed False, Clear]
     (add pcmEnable True (Events_init (EVENTS_excerpt :: unit catalog))))) \<and>
   events (fold apply_op [Clear, Clear, Add gasPressed False, Clear]
     (add pcmEnable True (Events_init (EVENTS_excerpt :: unit catalog)))) = [pcmEnable]"
  using C4_static_event_stays_active [of pcmEnable "[Clear, Clear, Add gasPressed False, Clear]"
      "Events_init (EVENTS_excerpt :: unit catalog)"]
  by simp

subsection \<open>any\<close>

text \<open>
  C5: \<open>any\<close> has no raising step (the catalog is read with \<open>get\<close> and a default), so it
  returns a boolean for every state and every event type string, also when the active
  list holds identifiers the catalog does not know; the boolean is true exactly when
  some active identifier has the event type among the keys of its catalog entry.
\<close>

theorem C5_any_total:
  "any EVENTS s et \<longleftrightarrow> (\<exists>e d. e \<in> set (events s) \<and> EVENTS e = Some d \<and> et \<in> fst ` set d)"
  by (simp add: any_def any_loop_get_types in_get_types)

theorem C5_any_total_witness:
  "any (EVENTS_excerpt :: unit catalog)
     (add 999 False (add pcmEnable False (Events_init (EVENTS_excerpt :: unit catalog)))) ENABLE \<and>
   \<not> any (EVENTS_excerpt :: unit catalog)
     (add 999 False (add pcmEnable False (Events_init (EVENTS_excerpt :: unit catalog)))) WARNING \<and>
   (EVENTS_excerpt :: unit catalog) 999 = None \<and>
   (\<exists>e d. e \<in> set (events (add 999 False (add pcmEnable False
        (Events_init (EVENTS_excerpt :: unit catalog))))) \<and>
      (EVENTS_excerpt :: unit catalog) e = Some d \<and> ENABLE \<in> fst ` set d)"
proof -
  let ?s = "add 999 False (add pcmEnable False (Events_init (EVENTS_excerpt :: unit catalog)))"
  have yes: "any (EVENTS_excerpt :: unit catalog) ?s ENABLE"
    by (simp add: any_def get_types_def EVENTS_excerpt_def excerpt_ids)
  have no: "\<not> any (EVENTS_excerpt :: unit catalog) ?s WARNING"
    by (simp add: any_def get_types_def EVENTS_excerpt_def excerpt_ids excerpt_types)
  have unknown: "(EVENTS_excerpt :: unit catalog) 999 = None"
    by (simp add: EVENTS_excerpt_def excerpt_ids)
  from yes have "\<exists>e d. e \<in> set (events ?s) \<and>
      (EVENTS_excerpt :: unit catalog) e = Some d \<and> ENABLE \<in> fst ` set d"
    using C5_any_total [of "EVENTS_excerpt :: unit catalog" ?s ENABLE] by simp
  with yes no unknown show ?thesis by simp
qed

subsection \<open>Messages\<close>

text \<open>
  C6: the messages \<open>to_msg\<close> produces, passed to \<open>add_from_msg\<close> of a new \<open>Events\<close> object,
  give that object the active list of the original (so the two are equal as sets) and the
  same answer of \<open>any\<close> for every event type; passed to \<open>add_from_msg\<close> of the original
  object itself, the active identifiers are again the same set and \<open>any\<close> answers the same.
\<close>

theorem C6_round_trip:
  "events (add_from_msg (to_msg EVENTS s) (Events_init EVENTS)) = events s \<and>
   set (events (add_from_msg (to_msg EVENTS s) (Events_init EVENTS))) = set (events s) \<and>
   any EVENTS (add_from_msg (to_msg EVENTS s) (Events_init EVENTS)) et = any EVENTS s et \<and>
   set (events (add_from_msg (to_msg EVENTS s) s)) = set (events s) \<and>
   any EVENTS (add_from_msg (to_msg EVENTS s) s) et = any EVENTS s et"
proof -
  have fresh: "events (add_from_msg (to_msg EVENTS s) (Events_init EVENTS)) = events s"
    by (simp add: add_from_msg_events to_msg_names)
  have same: "set (events (add_from_msg (to_msg EVENTS s) s)) = set (events s)"
    by (simp add: add_from_msg_events to_msg_names)
  show ?thesis
    using fresh same
      any_cong_set [of "add_from_msg (to_msg EVENTS s) (Events_init EVENTS)" s EVENTS et]
      any_cong_set [of "add_from_msg (to_msg EVENTS s) s" s EVENTS et]
    by simp
qed

theorem C6_round_trip_witness:
  "events (add_from_msg
      (to_msg (EVENTS_excerpt :: unit catalog)
         (add 999 False (add pcmEnable False (Events_init (EVENTS_excerpt :: unit catalog)))))
      (Events_init (EVENTS_excerpt :: unit catalog))) = [pcmEnable, 999] \<and>
   any (EVENTS_excerpt :: unit catalog) (add_from_msg
      (to_msg (EVENTS_excerpt :: unit catalog)
         (add 999 False (add pcmEnable False (Events_init (EVENTS_excerpt :: unit catalog)))))
      (Events_init (EVENTS_excerpt :: unit catalog))) ENABLE"
proof -
  let ?s = "add 999 False (add pcmEnable False (Events_init (EVENTS_excerpt :: unit catalog)))"
  have "any (EVENTS_excerpt :: unit catalog) ?s ENABLE"
    by (simp add: any_def get_types_def EVENTS_excerpt_def excerpt_ids)
  then show ?thesis
    using C6_round_trip [of "EVENTS_excerpt :: unit catalog" ?s ENABLE] by simp
qed

subsection \<open>to_msg\<close>

text \<open>
  C10: \<open>to_msg\<close> has no raising step and returns one message per entry of the active list,
  in order, duplicates included; the message of an entry carries its identifier and has
  the flag of an event type set exactly when the catalog has the identifier with that
  event type among its keys, so the message of an identifier the catalog does not know
  has no flag set.
\<close>

theorem C10_to_msg_one_record_per_entry:
  "to_msg EVENTS s =
     map (\<lambda>e. \<lparr> name = e, flags = (\<lambda>t. \<exists>d. EVENTS e = Some d \<and> t \<in> fst ` set d) \<rparr>)
       (events s) \<and>
   length (to_msg EVENTS s) = length (events s)"
  by (simp add: to_msg_def to_msg_loop_eq in_get_types)

theorem C10_to_msg_one_record_per_entry_witness:
  "to_msg (EVENTS_excerpt :: unit catalog)
     (add pcmEnable False (add 999 False (add pcmEnable False
        (Events_init (EVENTS_excerpt :: unit catalog))))) =
   [\<lparr> name = pcmEnable, flags = (\<lambda>t. t = ENABLE) \<rparr>,
    \<lparr> name = 999, flags = (\<lambda>t. False) \<rparr>,
    \<lparr> name = pcmEnable, flags = (\<lambda>t. t = ENABLE) \<rparr>]"
  using C10_to_msg_one_record_per_entry [of "EVENTS_excerpt :: unit catalog"
      "add pcmEnable False (add 999 False (add pcmEnable False
        (Events_init (EVENTS_excerpt :: unit catalog))))"]
  by (simp add: EVENTS_excerpt_def excerpt_ids fun_eq_iff)

subsection \<open>What create_alerts writes to the catalog\<close>

lemma unstamped_stamp [simp]: "unstamped (stamp nm et a) = unstamped a"
  by (simp add: unstamped_def stamp_def)

lemma stamp_unstamped: "stamp nm et (unstamped a) = stamp nm et a"
  by (simp add: unstamped_def stamp_def)

lemma creation_delay_unstamped: "creation_delay (unstamped a) = creation_delay a"
  by (simp add: unstamped_def)

lemma unstamped_eq_stamp: "unstamped a = unstamped b \<Longrightarrow> stamp nm et a = stamp nm et b"
  using stamp_unstamped [of nm et a] stamp_unstamped [of nm et b] by simp

lemma unstamped_eq_delay: "unstamped a = unstamped b \<Longrightarrow> creation_delay a = creation_delay b"
  using creation_delay_unstamped [of a] creation_delay_unstamped [of b] by simp

lemma same_entry_refl [simp]: "same_entry x x"
  by (cases x) simp_all

lemma same_entry_trans: "same_entry x y \<Longrightarrow> same_entry y z \<Longrightarrow> same_entry x z"
  by (cases x; cases y; cases z) simp_all

lemma same_types_refl [simp]: "same_types d d"
  by (simp add: same_types_def list_all2_same)

lemma same_catalog_refl [simp]: "same_catalog C C"
  by (simp add: same_catalog_def option.rel_refl)

lemma same_types_Nil [simp]: "same_types [] d \<longleftrightarrow> d = []" "same_types d [] \<longleftrightarrow> d = []"
  by (simp_all add: same_types_def)

lemma same_types_Cons:
  "same_types (p # d) (q # d') \<longleftrightarrow> fst p = fst q \<and> same_entry (snd p) (snd q) \<and> same_types d d'"
  by (simp add: same_types_def)

lemma same_types_Cons1:
  "same_types (p # d) d2 \<longleftrightarrow> (\<exists>q d'. d2 = q # d' \<and> fst p = fst q \<and> same_entry (snd p) (snd q) \<and> same_types d d')"
  by (auto simp: same_types_def list_all2_Cons1)

lemma same_types_map_of_None:
  "same_types d0 d \<Longrightarrow> map_of d0 et = None \<Longrightarrow> map_of d et = None"
proof (induction d0 arbitrary: d)
  case Nil
  then show ?case by simp
next
  case (Cons p d0)
  then show ?case
    by (cases p) (auto simp: same_types_Cons1 split: if_splits)
qed

lemma same_types_map_of_Some:
  "same_types d0 d \<Longrightarrow> map_of d0 et = Some x0 \<Longrightarrow> \<exists>x. map_of d et = Some x \<and> same_entry x0 x"
proof (induction d0 arbitrary: d)
  case Nil
  then show ?case by simp
next
  case (Cons p d0)
  then show ?case
    by (cases p) (auto simp: same_types_Cons1 split: if_splits)
qed

lemma same_types_set_entry:
  "same_types d0 d \<Longrightarrow> map_of d et = Some (Static a) \<Longrightarrow>
   same_types d0 (set_entry et (Static (stamp nm et a)) d)"
proof (induction d arbitrary: d0)
  case Nil
  then show ?case by simp
next
  case (Cons q d)
  obtain k v where q: "q = (k, v)" by (cases q)
  from Cons.prems(1) obtain p d0' where d0: "d0 = p # d0'"
    and pq: "fst p = k" "same_entry (snd p) v" and rest: "same_types d0' d"
    by (cases d0) (auto simp: same_types_Cons q)
  show ?case
  proof (cases "k = et")
    case True
    with Cons.prems(2) q have v: "v = Static a" by simp
    from pq(2) v have "same_entry (snd p) (Static (stamp nm et a))"
      by (cases "snd p") simp_all
    with True pq(1) rest show ?thesis by (simp add: q d0 same_types_Cons)
  next
    case False
    with Cons.prems(2) q have "map_of d et = Some (Static a)" by simp
    with rest have "same_types d0' (set_entry et (Static (stamp nm et a)) d)"
      by (rule Cons.IH)
    with False pq show ?thesis by (simp add: q d0 same_types_Cons)
  qed
qed

lemma same_catalog_upd:
  assumes "same_catalog C0 C" and "C e = Some d" and "map_of d et = Some (Static a)"
  shows "same_catalog C0 (C(e \<mapsto> set_entry et (Static (stamp nm et a)) d))"
proof -
  from assms(1) have all: "\<And>k. rel_option same_types (C0 k) (C k)"
    by (simp add: same_catalog_def)
  from all [of e] assms(2) obtain d0 where d0: "C0 e = Some d0" "same_types d0 d"
    by (cases "C0 e") simp_all
  from d0(2) assms(3) have "same_types d0 (set_entry et (Static (stamp nm et a)) d)"
    by (rule same_types_set_entry)
  with d0(1) all show ?thesis by (simp add: same_catalog_def)
qed

lemma create_alerts_types_same:
  "same_catalog C0 C \<Longrightarrow>
   same_catalog C0 (snd (create_alerts_types DT NM prev args e ets ret C))"
proof (induction ets arbitrary: ret C)
  case Nil
  then show ?case by simp
next
  case (Cons et ets)
  show ?case
  proof (cases "C e")
    case None
    with Cons.prems show ?thesis by simp
  next
    case (Some d)
    show ?thesis
    proof (cases "map_of d et")
      case None
      with Some Cons show ?thesis by simp
    next
      case x: (Some x)
      show ?thesis
      proof (cases "resolve x args")
        case (Inl err)
        with Some x Cons.prems show ?thesis by simp
      next
        case (Inr alert)
        show ?thesis
        proof (cases "prev e")
          case None
          with Some x Inr Cons.prems show ?thesis by simp
        next
          case v: (Some v)
          show ?thesis
          proof (cases "DT * (of_int v + 1) \<ge> creation_delay alert")
            case False
            with Some x Inr v Cons show ?thesis by simp
          next
            case True
            show ?thesis
            proof (cases "NM e")
              case None
              with Some x Inr v True Cons.prems show ?thesis by simp
            next
              case nm: (Some nm)
              show ?thesis
              proof (cases x)
                case (Static a)
                with Inr have "alert = a" by (simp add: resolve_def)
                with Static x have "map_of d et = Some (Static alert)" by simp
                with Cons.prems Some
                have "same_catalog C0 (C(e \<mapsto> set_entry et (Static (stamp nm et alert)) d))"
                  by (rule same_catalog_upd)
                then have "same_catalog C0 (snd (create_alerts_types DT NM prev args e ets
                    (ret @ [stamp nm et alert])
                    (C(e \<mapsto> set_entry et (Static (stamp nm et alert)) d))))"
                  by (rule Cons.IH)
                with Some x Inr v True nm Static show ?thesis by simp
              next
                case (Callback f)
                from Cons.prems
                have "same_catalog C0 (snd (create_alerts_types DT NM prev args e ets
                    (ret @ [stamp nm et alert]) C))"
                  by (rule Cons.IH)
                with Some x Inr v True nm Callback show ?thesis by simp
              qed
            qed
          qed
        qed
      qed
    qed
  qed
qed



lemma same_catalog_None: "same_catalog C0 C \<Longrightarrow> C0 e = None \<Longrightarrow> C e = None"
proof -
  assume a: "same_catalog C0 C" "C0 e = None"
  from a(1) have "rel_option same_types (C0 e) (C e)" by (simp add: same_catalog_def)
  with a(2) show ?thesis by (cases "C e") simp_all
qed

lemma same_catalog_Some:
  "same_catalog C0 C \<Longrightarrow> C0 e = Some d0 \<Longrightarrow> \<exists>d. C e = Some d \<and> same_types d0 d"
proof -
  assume a: "same_catalog C0 C" "C0 e = Some d0"
  from a(1) have "rel_option same_types (C0 e) (C e)" by (simp add: same_catalog_def)
  with a(2) show ?thesis by (cases "C e") simp_all
qed

lemma same_entry_resolve:
  "same_entry x0 x \<Longrightarrow> resolve x0 args = Inr a \<Longrightarrow>
   \<exists>a'. resolve x args = Inr a' \<and> unstamped a' = unstamped a"
  by (cases x0; cases x) (simp_all add: resolve_def)

lemma create_alerts_types_other:
  assumes "same_catalog C0 C" and "C0 e' = Some d'" and "map_of d' et = None"
  shows "create_alerts_types DT NM prev args e' [et] ret C = (Inr ret, C)"
proof -
  from assms(1,2) obtain d where d: "C e' = Some d" "same_types d' d"
    using same_catalog_Some by blast
  from d(2) assms(3) have "map_of d et = None" by (rule same_types_map_of_None)
  with d(1) show ?thesis by simp
qed

subsection \<open>create_alerts when one active identifier has the event type\<close>

lemma create_alerts_types_one:
  assumes "C e = Some d" and "map_of d et = Some x" and "resolve x args = Inr a'"
    and "NM e = Some nm" and "prev e = Some v"
  shows "fst (create_alerts_types DT NM prev args e [et] ret C) =
           Inr (ret @ (if DT * (of_int v + 1) \<ge> creation_delay a' then [stamp nm et a'] else []))"
proof (cases "DT * (of_int v + 1) \<ge> creation_delay a'")
  case True
  with assms show ?thesis by (cases x) simp_all
next
  case False
  with assms show ?thesis by simp
qed

lemma create_alerts_types_self:
  assumes "same_catalog C0 C" and "C0 e = Some d0" and "map_of d0 et = Some x0"
    and "resolve x0 args = Inr a" and "NM e = Some nm" and "prev e = Some v"
  shows "fst (create_alerts_types DT NM prev args e [et] ret C) =
           Inr (ret @ (if DT * (of_int v + 1) \<ge> creation_delay a then [stamp nm et a] else []))"
proof -
  from assms(1,2) obtain d where d: "C e = Some d" "same_types d0 d"
    using same_catalog_Some by blast
  from d(2) assms(3) obtain x where x: "map_of d et = Some x" "same_entry x0 x"
    using same_types_map_of_Some by blast
  from x(2) assms(4) obtain a' where a': "resolve x args = Inr a'" "unstamped a' = unstamped a"
    using same_entry_resolve by blast
  from a'(2) have eq1: "stamp nm et a' = stamp nm et a"
    by (rule unstamped_eq_stamp)
  from a'(2) have eq2: "creation_delay a' = creation_delay a"
    by (rule unstamped_eq_delay)
  have "fst (create_alerts_types DT NM prev args e [et] ret C) =
           Inr (ret @ (if DT * (of_int v + 1) \<ge> creation_delay a' then [stamp nm et a'] else []))"
    using d(1) x(1) a'(1) assms(5,6) by (rule create_alerts_types_one)
  then show ?thesis by (simp only: eq1 eq2)
qed

lemma create_alerts_loop_Cons:
  "C e = Some d \<Longrightarrow> create_alerts_types DT NM prev args e ets ret C = (Inr ret', C') \<Longrightarrow>
   create_alerts_loop DT NM prev args ets (e # es) ret C =
     create_alerts_loop DT NM prev args ets es ret' C'"
  by simp

lemma create_alerts_loop_Cons_err:
  "C e = Some d \<Longrightarrow> create_alerts_types DT NM prev args e ets ret C = (Inl err, C') \<Longrightarrow>
   create_alerts_loop DT NM prev args ets (e # es) ret C = (Inl err, C')"
  by simp

lemma create_alerts_loop_single_source:
  assumes "C0 e = Some d0" and "map_of d0 et = Some x0"
    and "resolve x0 args = Inr a" and "NM e = Some nm" and "prev e = Some v"
  shows "same_catalog C0 C \<Longrightarrow>
         \<forall>e' \<in> set es. e' \<noteq> e \<longrightarrow> (\<exists>d'. C0 e' = Some d' \<and> map_of d' et = None) \<Longrightarrow>
         fst (create_alerts_loop DT NM prev args [et] es ret C) =
           Inr (ret @ (if DT * (of_int v + 1) \<ge> creation_delay a
                       then replicate (count_list es e) (stamp nm et a) else []))"
proof (induction es arbitrary: ret C)
  case Nil
  show ?case by simp
next
  case (Cons e' es)
  obtain r C' where step: "create_alerts_types DT NM prev args e' [et] ret C = (r, C')"
    by (cases "create_alerts_types DT NM prev args e' [et] ret C")
  have "same_catalog C0 (snd (create_alerts_types DT NM prev args e' [et] ret C))"
    using Cons.prems(1) by (rule create_alerts_types_same)
  with step have C': "same_catalog C0 C'" by simp
  from Cons.prems(2)
  have rest: "\<forall>e' \<in> set es. e' \<noteq> e \<longrightarrow> (\<exists>d'. C0 e' = Some d' \<and> map_of d' et = None)"
    by simp
  show ?case
  proof (cases "e' = e")
    case True
    from Cons.prems(1) assms(1) obtain d where d: "C e' = Some d"
      using same_catalog_Some True by blast
    have "fst (create_alerts_types DT NM prev args e [et] ret C) =
        Inr (ret @ (if DT * (of_int v + 1) \<ge> creation_delay a then [stamp nm et a] else []))"
      using Cons.prems(1) assms by (rule create_alerts_types_self)
    with step True
    have r: "r = Inr (ret @ (if DT * (of_int v + 1) \<ge> creation_delay a then [stamp nm et a] else []))"
      by simp
    have "create_alerts_loop DT NM prev args [et] (e' # es) ret C =
          create_alerts_loop DT NM prev args [et] es
            (ret @ (if DT * (of_int v + 1) \<ge> creation_delay a then [stamp nm et a] else [])) C'"
      using d step [unfolded r] by (rule create_alerts_loop_Cons)
    moreover have "fst (create_alerts_loop DT NM prev args [et] es
            (ret @ (if DT * (of_int v + 1) \<ge> creation_delay a then [stamp nm et a] else [])) C') =
          Inr ((ret @ (if DT * (of_int v + 1) \<ge> creation_delay a then [stamp nm et a] else [])) @
               (if DT * (of_int v + 1) \<ge> creation_delay a
                then replicate (count_list es e) (stamp nm et a) else []))"
      using C' rest by (rule Cons.IH)
    ultimately show ?thesis using True by simp
  next
    case False
    with Cons.prems(2) obtain d' where d': "C0 e' = Some d'" "map_of d' et = None"
      by auto
    from Cons.prems(1) d'(1) obtain d where d: "C e' = Some d"
      using same_catalog_Some by blast
    have other: "create_alerts_types DT NM prev args e' [et] ret C = (Inr ret, C)"
      using Cons.prems(1) d' by (rule create_alerts_types_other)
    have "create_alerts_loop DT NM prev args [et] (e' # es) ret C =
          create_alerts_loop DT NM prev args [et] es ret C"
      using d other by (rule create_alerts_loop_Cons)
    moreover have "fst (create_alerts_loop DT NM prev args [et] es ret C) =
           Inr (ret @ (if DT * (of_int v + 1) \<ge> creation_delay a
                       then replicate (count_list es e) (stamp nm et a) else []))"
      using Cons.prems(1) rest by (rule Cons.IH)
    ultimately show ?thesis using False by simp
  qed
qed

lemma create_alerts_loop_unknown:
  assumes "C0 e = None"
  shows "same_catalog C0 C \<Longrightarrow> e \<in> set es \<Longrightarrow>
         \<exists>err. fst (create_alerts_loop DT NM prev args ets es ret C) = Inl err"
proof (induction es arbitrary: ret C)
  case Nil
  then show ?case by simp
next
  case (Cons e' es)
  show ?case
  proof (cases "C e'")
    case None
    then show ?thesis by simp
  next
    case (Some d)
    from Cons.prems(1) assms have "C e = None" by (rule same_catalog_None)
    with Some have "e' \<noteq> e" by auto
    with Cons.prems(2) have mem: "e \<in> set es" by simp
    obtain r C' where step: "create_alerts_types DT NM prev args e' ets ret C = (r, C')"
      by (cases "create_alerts_types DT NM prev args e' ets ret C")
    have "same_catalog C0 (snd (create_alerts_types DT NM prev args e' ets ret C))"
      using Cons.prems(1) by (rule create_alerts_types_same)
    with step have C': "same_catalog C0 C'" by simp
    show ?thesis
    proof (cases r)
      case (Inl err)
      with Some step show ?thesis by simp
    next
      case (Inr ret')
      have "\<exists>err. fst (create_alerts_loop DT NM prev args ets es ret' C') = Inl err"
        using C' mem by (rule Cons.IH)
      with Some step Inr show ?thesis by simp
    qed
  qed
qed

lemma create_alerts_single_source:
  assumes "C0 e = Some d0" and "map_of d0 et = Some x0"
    and "resolve x0 (case args of None \<Rightarrow> [] | Some xs \<Rightarrow> xs) = Inr a"
    and "NM e = Some nm" and "events_prev s e = Some v"
    and "same_catalog C0 C"
    and "\<forall>e' \<in> set (events s). e' \<noteq> e \<longrightarrow> (\<exists>d'. C0 e' = Some d' \<and> map_of d' et = None)"
  shows "fst (create_alerts DT NM C s [et] args) =
           Inr (if DT * (of_int v + 1) \<ge> creation_delay a
                then replicate (count_list (events s) e) (stamp nm et a) else [])"
proof -
  have "fst (create_alerts_loop DT NM (events_prev s) (case args of None \<Rightarrow> [] | Some xs \<Rightarrow> xs)
          [et] (events s) [] C) =
        Inr ([] @ (if DT * (of_int v + 1) \<ge> creation_delay a
                   then replicate (count_list (events s) e) (stamp nm et a) else []))"
    using assms by (rule create_alerts_loop_single_source)
  then show ?thesis by (simp add: create_alerts_def)
qed


lemma length_cycles [simp]: "length (cycles DT NM ets args bs s C) = length bs"
  by (induction bs arbitrary: s C) simp_all




lemma pcmEnable_entry:
  "(EVENTS_excerpt :: unit catalog) pcmEnable = Some [(ENABLE, Static (EngagementAlert chimeEngage))]"
  by (simp add: EVENTS_excerpt_def excerpt_ids)


lemma creation_delay_new_Alert [simp]:
  "creation_delay (new_Alert t1 t2 st sz p vi au ds dh dt r dl) = dl"
  by (simp add: new_Alert_def)

lemma alert_rate_new_Alert [simp]:
  "alert_rate (new_Alert t1 t2 st sz p vi au ds dh dt r dl) = r"
  by (simp add: new_Alert_def)

subsection \<open>The list create_alerts returns\<close>

lemma create_alerts_types_split:
  "create_alerts_types DT NM prev args e (et # ets) ret C =
     (case create_alerts_types DT NM prev args e [et] ret C of
        (Inl err, C') \<Rightarrow> (Inl err, C')
      | (Inr ret', C') \<Rightarrow> create_alerts_types DT NM prev args e ets ret' C')"
proof (cases "C e")
  case None
  then show ?thesis by simp
next
  case d: (Some d)
  show ?thesis
  proof (cases "map_of d et")
    case None
    with d show ?thesis by simp
  next
    case x: (Some x)
    show ?thesis
    proof (cases "resolve x args")
      case (Inl err)
      with d x show ?thesis by simp
    next
      case a: (Inr alert)
      show ?thesis
      proof (cases "prev e")
        case None
        with d x a show ?thesis by simp
      next
        case v: (Some v)
        show ?thesis
        proof (cases "DT * (of_int v + 1) \<ge> creation_delay alert")
          case False
          with d x a v show ?thesis by simp
        next
          case True
          show ?thesis
          proof (cases "NM e")
            case None
            with d x a v True show ?thesis by simp
          next
            case (Some nm)
            with d x a v True show ?thesis by (cases x) simp_all
          qed
        qed
      qed
    qed
  qed
qed




lemma create_alerts_types_head:
  assumes "create_alerts_types DT NM prev args e [et] ret C = (Inr r, C')"
  shows "r = ret @ alert_for DT NM prev args C e et"
proof (cases "C e")
  case None
  with assms show ?thesis by simp
next
  case d: (Some d)
  show ?thesis
  proof (cases "map_of d et")
    case None
    with d assms show ?thesis by (simp add: alert_for_def)
  next
    case x: (Some x)
    show ?thesis
    proof (cases "resolve x args")
      case (Inl err)
      with d x assms show ?thesis by simp
    next
      case a: (Inr alert)
      show ?thesis
      proof (cases "prev e")
        case None
        with d x a assms show ?thesis by simp
      next
        case v: (Some v)
        show ?thesis
        proof (cases "DT * (of_int v + 1) \<ge> creation_delay alert")
          case False
          with d x a v assms show ?thesis by (simp add: alert_for_def)
        next
          case True
          show ?thesis
          proof (cases "NM e")
            case None
            with d x a v True assms show ?thesis by simp
          next
            case (Some nm)
            with d x a v True assms show ?thesis
              by (cases x) (simp_all add: alert_for_def)
          qed
        qed
      qed
    qed
  qed
qed




lemma alert_for_same:
  assumes "same_catalog C0 C"
  shows "alert_for DT NM prev args C e et = alert_for DT NM prev args C0 e et"
proof (cases "C0 e")
  case None
  with assms have "C e = None" by (rule same_catalog_None)
  with None show ?thesis by (simp add: alert_for_def)
next
  case (Some d0)
  with assms obtain d where d: "C e = Some d" "same_types d0 d"
    using same_catalog_Some by blast
  show ?thesis
  proof (cases "map_of d0 et")
    case None
    with d(2) have "map_of d et = None" by (rule same_types_map_of_None)
    with None Some d(1) show ?thesis by (simp add: alert_for_def)
  next
    case x0: (Some x0)
    with d(2) obtain x where x: "map_of d et = Some x" "same_entry x0 x"
      using same_types_map_of_Some by blast
    show ?thesis
    proof (cases "resolve x0 args")
      case (Inl err)
      with x(2) have "resolve x args = Inl err"
        by (cases x0; cases x) (simp_all add: resolve_def)
      with Inl Some d(1) x0 x(1) show ?thesis by (simp add: alert_for_def)
    next
      case (Inr a0)
      with x(2) obtain a where a: "resolve x args = Inr a" "unstamped a = unstamped a0"
        using same_entry_resolve by blast
      from a(2) have eq: "creation_delay a = creation_delay a0"
        "\<And>nm. stamp nm et a = stamp nm et a0"
        by (rule unstamped_eq_delay, rule unstamped_eq_stamp)
      show ?thesis
        using Inr Some d(1) x0 x(1) a(1) eq
        by (simp add: alert_for_def split: option.splits)
    qed
  qed
qed


lemma create_alerts_types_returns:
  "same_catalog C0 C \<Longrightarrow> fst (create_alerts_types DT NM prev args e ets ret C) = Inr r \<Longrightarrow>
   r = ret @ concat (map (alert_for DT NM prev args C0 e) ets)"
proof (induction ets arbitrary: ret C)
  case Nil
  then show ?case by simp
next
  case (Cons et ets)
  obtain r1 C1 where head: "create_alerts_types DT NM prev args e [et] ret C = (r1, C1)"
    by (cases "create_alerts_types DT NM prev args e [et] ret C")
  have "same_catalog C0 (snd (create_alerts_types DT NM prev args e [et] ret C))"
    using Cons.prems(1) by (rule create_alerts_types_same)
  with head have C1: "same_catalog C0 C1" by simp
  show ?case
  proof (cases r1)
    case (Inl err)
    have "create_alerts_types DT NM prev args e (et # ets) ret C =
        (case create_alerts_types DT NM prev args e [et] ret C of
           (Inl err, C') \<Rightarrow> (Inl err, C')
         | (Inr ret', C') \<Rightarrow> create_alerts_types DT NM prev args e ets ret' C')"
      by (rule create_alerts_types_split)
    also have "\<dots> = (Inl err, C1)"
      by (simp only: head Inl prod.case sum.case)
    finally have "create_alerts_types DT NM prev args e (et # ets) ret C = (Inl err, C1)" .
    with Cons.prems(2) show ?thesis by (simp only: fst_conv sum.distinct)
  next
    case (Inr ret')
    have "create_alerts_types DT NM prev args e (et # ets) ret C =
        (case create_alerts_types DT NM prev args e [et] ret C of
           (Inl err, C') \<Rightarrow> (Inl err, C')
         | (Inr ret', C') \<Rightarrow> create_alerts_types DT NM prev args e ets ret' C')"
      by (rule create_alerts_types_split)
    also have "\<dots> = create_alerts_types DT NM prev args e ets ret' C1"
      by (simp only: head Inr prod.case sum.case)
    finally have rest: "create_alerts_types DT NM prev args e (et # ets) ret C =
        create_alerts_types DT NM prev args e ets ret' C1" .
    from head Inr have "create_alerts_types DT NM prev args e [et] ret C = (Inr ret', C1)"
      by (simp only:)
    then have "ret' = ret @ alert_for DT NM prev args C e et"
      by (rule create_alerts_types_head)
    with Cons.prems(1) have ret': "ret' = ret @ alert_for DT NM prev args C0 e et"
      by (simp add: alert_for_same)
    from Cons.prems(2) rest have "fst (create_alerts_types DT NM prev args e ets ret' C1) = Inr r"
      by (simp only:)
    with C1 have "r = ret' @ concat (map (alert_for DT NM prev args C0 e) ets)"
      by (rule Cons.IH)
    with ret' show ?thesis by simp
  qed
qed

lemma create_alerts_loop_returns:
  "same_catalog C0 C \<Longrightarrow> fst (create_alerts_loop DT NM prev args ets es ret C) = Inr r \<Longrightarrow>
   r = ret @ concat (map (\<lambda>e. concat (map (alert_for DT NM prev args C0 e) ets)) es)"
proof (induction es arbitrary: ret C)
  case Nil
  then show ?case by simp
next
  case (Cons e es)
  show ?case
  proof (cases "C e")
    case None
    with Cons.prems(2) show ?thesis by simp
  next
    case (Some d)
    obtain r1 C1 where step: "create_alerts_types DT NM prev args e ets ret C = (r1, C1)"
      by (cases "create_alerts_types DT NM prev args e ets ret C")
    have "same_catalog C0 (snd (create_alerts_types DT NM prev args e ets ret C))"
      using Cons.prems(1) by (rule create_alerts_types_same)
    with step have C1: "same_catalog C0 C1" by simp
    show ?thesis
    proof (cases r1)
      case (Inl err)
      with Some step Cons.prems(2) show ?thesis by simp
    next
      case (Inr ret')
      from step Inr have "fst (create_alerts_types DT NM prev args e ets ret C) = Inr ret'"
        by simp
      with Cons.prems(1)
      have ret': "ret' = ret @ concat (map (alert_for DT NM prev args C0 e) ets)"
        by (rule create_alerts_types_returns)
      from Some step Inr Cons.prems(2)
      have "fst (create_alerts_loop DT NM prev args ets es ret' C1) = Inr r"
        by simp
      with C1
      have "r = ret' @ concat (map (\<lambda>e. concat (map (alert_for DT NM prev args C0 e) ets)) es)"
        by (rule Cons.IH)
      with ret' show ?thesis by simp
    qed
  qed
qed

lemma no_raise_same:
  assumes "same_catalog C0 C" and "no_raise NM prev args C0 ets e"
  shows "no_raise NM prev args C ets e"
proof -
  from assms(2) obtain d0 where d0: "C0 e = Some d0"
    by (cases "C0 e") (simp_all add: no_raise_def)
  with assms(1) obtain d where d: "C e = Some d" "same_types d0 d"
    using same_catalog_Some by blast
  have "list_all (\<lambda>et. case map_of d et of None \<Rightarrow> True
            | Some x \<Rightarrow> (case resolve x args of Inl err \<Rightarrow> False | Inr a \<Rightarrow> True)) ets"
    unfolding list_all_iff
  proof
    fix et assume et: "et \<in> set ets"
    from assms(2) d0 et
    have ok0: "case map_of d0 et of None \<Rightarrow> True
            | Some x \<Rightarrow> (case resolve x args of Inl err \<Rightarrow> False | Inr a \<Rightarrow> True)"
      by (simp add: no_raise_def list_all_iff)
    show "case map_of d et of None \<Rightarrow> True
            | Some x \<Rightarrow> (case resolve x args of Inl err \<Rightarrow> False | Inr a \<Rightarrow> True)"
    proof (cases "map_of d0 et")
      case None
      with d(2) have "map_of d et = None" by (rule same_types_map_of_None)
      then show ?thesis by simp
    next
      case (Some x0)
      with d(2) obtain x where x: "map_of d et = Some x" "same_entry x0 x"
        using same_types_map_of_Some by blast
      from ok0 Some obtain a0 where "resolve x0 args = Inr a0"
        by (cases "resolve x0 args") simp_all
      with x(2) obtain a where "resolve x args = Inr a"
        using same_entry_resolve by blast
      with x(1) show ?thesis by simp
    qed
  qed
  with assms(2) d(1) show ?thesis by (simp add: no_raise_def)
qed

lemma no_raise_Cons:
  "no_raise NM prev args C (et # ets) e \<Longrightarrow> no_raise NM prev args C ets e"
  by (cases "C e") (simp_all add: no_raise_def)

lemma create_alerts_types_head_ok:
  assumes "no_raise NM prev args C (et # ets) e"
  shows "\<exists>r C'. create_alerts_types DT NM prev args e [et] ret C = (Inr r, C')"
proof -
  from assms obtain d where d: "C e = Some d"
    by (cases "C e") (simp_all add: no_raise_def)
  from assms obtain nm where nm: "NM e = Some nm"
    by (cases "NM e") (simp_all add: no_raise_def)
  from assms obtain v where v: "prev e = Some v"
    by (cases "prev e") (simp_all add: no_raise_def)
  show ?thesis
  proof (cases "map_of d et")
    case None
    with d show ?thesis by simp
  next
    case x: (Some x)
    with assms d obtain a where a: "resolve x args = Inr a"
      by (cases "resolve x args") (simp_all add: no_raise_def)
    show ?thesis
    proof (cases "DT * (of_int v + 1) \<ge> creation_delay a")
      case True
      with d x a nm v show ?thesis by (cases x) simp_all
    next
      case False
      with d x a nm v show ?thesis by simp
    qed
  qed
qed

lemma create_alerts_types_ok:
  "same_catalog C0 C \<Longrightarrow> no_raise NM prev args C0 ets e \<Longrightarrow>
   \<exists>r. fst (create_alerts_types DT NM prev args e ets ret C) = Inr r"
proof (induction ets arbitrary: ret C)
  case Nil
  then show ?case by simp
next
  case (Cons et ets)
  from Cons.prems have "no_raise NM prev args C (et # ets) e"
    by (rule no_raise_same)
  then obtain r1 C1 where head: "create_alerts_types DT NM prev args e [et] ret C = (Inr r1, C1)"
    using create_alerts_types_head_ok by blast
  have "same_catalog C0 (snd (create_alerts_types DT NM prev args e [et] ret C))"
    using Cons.prems(1) by (rule create_alerts_types_same)
  with head have C1: "same_catalog C0 C1" by simp
  from Cons.prems(2) have rest: "no_raise NM prev args C0 ets e"
    by (rule no_raise_Cons)
  have "create_alerts_types DT NM prev args e (et # ets) ret C =
        (case create_alerts_types DT NM prev args e [et] ret C of
           (Inl err, C') \<Rightarrow> (Inl err, C')
         | (Inr ret', C') \<Rightarrow> create_alerts_types DT NM prev args e ets ret' C')"
    by (rule create_alerts_types_split)
  also have "\<dots> = create_alerts_types DT NM prev args e ets r1 C1"
    by (simp only: head prod.case sum.case)
  finally have eq: "create_alerts_types DT NM prev args e (et # ets) ret C =
      create_alerts_types DT NM prev args e ets r1 C1" .
  from C1 rest have "\<exists>r. fst (create_alerts_types DT NM prev args e ets r1 C1) = Inr r"
    by (rule Cons.IH)
  then show ?case by (simp only: eq)
qed

lemma create_alerts_loop_ok:
  "same_catalog C0 C \<Longrightarrow> \<forall>e \<in> set es. no_raise NM prev args C0 ets e \<Longrightarrow>
   \<exists>r. fst (create_alerts_loop DT NM prev args ets es ret C) = Inr r"
proof (induction es arbitrary: ret C)
  case Nil
  then show ?case by simp
next
  case (Cons e es)
  from Cons.prems(2) have e: "no_raise NM prev args C0 ets e" by simp
  with Cons.prems(1) have "no_raise NM prev args C ets e" by (rule no_raise_same)
  then obtain d where d: "C e = Some d"
    by (cases "C e") (simp_all add: no_raise_def)
  from Cons.prems(1) e obtain r1 where r1: "fst (create_alerts_types DT NM prev args e ets ret C) = Inr r1"
    using create_alerts_types_ok by blast
  obtain C1 where step: "create_alerts_types DT NM prev args e ets ret C = (Inr r1, C1)"
    using r1 by (cases "create_alerts_types DT NM prev args e ets ret C") simp
  have "same_catalog C0 (snd (create_alerts_types DT NM prev args e ets ret C))"
    using Cons.prems(1) by (rule create_alerts_types_same)
  with step have C1: "same_catalog C0 C1" by simp
  from Cons.prems(2) have rest: "\<forall>e \<in> set es. no_raise NM prev args C0 ets e" by simp
  from C1 rest have "\<exists>r. fst (create_alerts_loop DT NM prev args ets es r1 C1) = Inr r"
    by (rule Cons.IH)
  with d step show ?case by simp
qed

lemma create_alerts_returns:
  assumes "same_catalog C0 C"
    and "fst (create_alerts DT NM C s ets callback_args) = Inr r"
  shows "r = concat (map (\<lambda>e. concat (map
           (alert_for DT NM (events_prev s) (case callback_args of None \<Rightarrow> [] | Some xs \<Rightarrow> xs) C0 e)
           ets)) (events s))"
proof -
  from assms(2)
  have "fst (create_alerts_loop DT NM (events_prev s)
          (case callback_args of None \<Rightarrow> [] | Some xs \<Rightarrow> xs) ets (events s) [] C) = Inr r"
    by (simp add: create_alerts_def)
  with assms(1)
  have "r = [] @ concat (map (\<lambda>e. concat (map
           (alert_for DT NM (events_prev s) (case callback_args of None \<Rightarrow> [] | Some xs \<Rightarrow> xs) C0 e)
           ets)) (events s))"
    by (rule create_alerts_loop_returns)
  then show ?thesis by simp
qed

lemma create_alerts_ok:
  assumes "same_catalog C0 C"
    and "\<forall>e \<in> set (events s). no_raise NM (events_prev s)
           (case callback_args of None \<Rightarrow> [] | Some xs \<Rightarrow> xs) C0 ets e"
  shows "\<exists>r. fst (create_alerts DT NM C s ets callback_args) = Inr r"
proof -
  from assms
  have "\<exists>r. fst (create_alerts_loop DT NM (events_prev s)
          (case callback_args of None \<Rightarrow> [] | Some xs \<Rightarrow> xs) ets (events s) [] C) = Inr r"
    by (rule create_alerts_loop_ok)
  then show ?thesis by (simp add: create_alerts_def)
qed

subsection \<open>Adding an identifier twice\<close>

text \<open>
  C7, as the spec states it: a second \<open>add\<close> of the same identifier changes nothing that
  \<open>any\<close>, \<open>create_alerts\<close>, \<open>__len__\<close> or \<open>to_msg\<close> can see. The active list is a list and
  \<open>add\<close> appends: after two adds of \<open>pcmEnable\<close> the length is 2, \<open>to_msg\<close> returns two
  messages and \<open>create_alerts\<close> returns the alert twice; after one add each of them is 1.
\<close>

theorem C7_counterexample:
  "len (add pcmEnable False (add pcmEnable False
     (Events_init (EVENTS_excerpt :: unit catalog)))) = 2 \<and>
   len (add pcmEnable False (Events_init (EVENTS_excerpt :: unit catalog))) = 1 \<and>
   length (to_msg (EVENTS_excerpt :: unit catalog) (add pcmEnable False (add pcmEnable False
     (Events_init (EVENTS_excerpt :: unit catalog))))) = 2 \<and>
   length (to_msg (EVENTS_excerpt :: unit catalog) (add pcmEnable False
     (Events_init (EVENTS_excerpt :: unit catalog)))) = 1 \<and>
   fst (create_alerts (1 / 100) EVENT_NAME_excerpt (EVENTS_excerpt :: unit catalog)
     (add pcmEnable False (add pcmEnable False (Events_init (EVENTS_excerpt :: unit catalog))))
     [ENABLE] None) =
     Inr [stamp ''pcmEnable'' ENABLE (EngagementAlert chimeEngage),
          stamp ''pcmEnable'' ENABLE (EngagementAlert chimeEngage)] \<and>
   fst (create_alerts (1 / 100) EVENT_NAME_excerpt (EVENTS_excerpt :: unit catalog)
     (add pcmEnable False (Events_init (EVENTS_excerpt :: unit catalog)))
     [ENABLE] None) =
     Inr [stamp ''pcmEnable'' ENABLE (EngagementAlert chimeEngage)]"
proof -
  let ?a = "EngagementAlert chimeEngage"
  let ?s = "Events_init (EVENTS_excerpt :: unit catalog)"
  have nm: "EVENT_NAME_excerpt pcmEnable = Some ''pcmEnable''"
    by (simp add: EVENT_NAME_excerpt_def excerpt_ids)
  have look: "map_of [(ENABLE, Static ?a :: unit entry)] ENABLE = Some (Static ?a)"
    by simp
  have res: "resolve (Static ?a :: unit entry) (case None of None \<Rightarrow> [] | Some xs \<Rightarrow> xs) = Inr ?a"
    by (simp add: resolve_def)
  have delay: "creation_delay ?a = 0"
    by (simp add: EngagementAlert_def)
  have prev2: "events_prev (add pcmEnable False (add pcmEnable False ?s)) pcmEnable = Some 0"
    and prev1: "events_prev (add pcmEnable False ?s) pcmEnable = Some 0"
    by (simp_all add: Events_init_def pcmEnable_entry)
  have only2: "\<forall>e' \<in> set (events (add pcmEnable False (add pcmEnable False ?s))).
      e' \<noteq> pcmEnable \<longrightarrow>
      (\<exists>d'. (EVENTS_excerpt :: unit catalog) e' = Some d' \<and> map_of d' ENABLE = None)"
    and only1: "\<forall>e' \<in> set (events (add pcmEnable False ?s)).
      e' \<noteq> pcmEnable \<longrightarrow>
      (\<exists>d'. (EVENTS_excerpt :: unit catalog) e' = Some d' \<and> map_of d' ENABLE = None)"
    by simp_all
  have two: "fst (create_alerts (1 / 100) EVENT_NAME_excerpt (EVENTS_excerpt :: unit catalog)
     (add pcmEnable False (add pcmEnable False ?s)) [ENABLE] None) =
     Inr (if (1 / 100) * (of_int 0 + 1) \<ge> creation_delay ?a
          then replicate (count_list (events (add pcmEnable False (add pcmEnable False ?s))) pcmEnable)
                 (stamp ''pcmEnable'' ENABLE ?a) else [])"
    using pcmEnable_entry look res nm prev2 same_catalog_refl only2
    by (rule create_alerts_single_source [where ?C0.0 = "EVENTS_excerpt :: unit catalog"
          and e = pcmEnable and NM = EVENT_NAME_excerpt])
  have one: "fst (create_alerts (1 / 100) EVENT_NAME_excerpt (EVENTS_excerpt :: unit catalog)
     (add pcmEnable False ?s) [ENABLE] None) =
     Inr (if (1 / 100) * (of_int 0 + 1) \<ge> creation_delay ?a
          then replicate (count_list (events (add pcmEnable False ?s)) pcmEnable)
                 (stamp ''pcmEnable'' ENABLE ?a) else [])"
    using pcmEnable_entry look res nm prev1 same_catalog_refl only1
    by (rule create_alerts_single_source [where ?C0.0 = "EVENTS_excerpt :: unit catalog"
          and e = pcmEnable and NM = EVENT_NAME_excerpt])
  show ?thesis
    using two one delay by (simp add: len_def to_msg_length)
qed

text \<open>
  C7, amended: a second \<open>add\<close> of the same identifier with the same flag leaves \<open>any\<close>
  unchanged for every event type and leaves the set of active identifiers unchanged; it
  adds one entry to the active list, so \<open>__len__\<close> grows by one and \<open>to_msg\<close> returns one
  more message (\<open>create_alerts\<close> walks the same list). With \<open>static=False\<close> the next
  \<open>clear\<close> leaves the same object as after a single add.
\<close>

theorem C7_repeated_add:
  "any EVENTS (add e static (add e static s)) et = any EVENTS (add e static s) et \<and>
   set (events (add e static (add e static s))) = set (events (add e static s)) \<and>
   len (add e static (add e static s)) = len (add e static s) + 1 \<and>
   length (to_msg EVENTS (add e static (add e static s))) =
     length (to_msg EVENTS (add e static s)) + 1 \<and>
   clear (add e False (add e False s)) = clear (add e False s)"
proof -
  have "set (events (add e static (add e static s))) = set (events (add e static s))"
    by simp
  moreover from this
  have "any EVENTS (add e static (add e static s)) et = any EVENTS (add e static s) et"
    by (rule any_cong_set)
  moreover have "clear (add e False (add e False s)) = clear (add e False s)"
  proof (rule Events.equality)
    show "events_prev (clear (add e False (add e False s))) =
          events_prev (clear (add e False s))"
      by (simp add: fun_eq_iff events_prev_clear split: option.splits)
    show "Events.more (clear (add e False (add e False s))) =
          Events.more (clear (add e False s))"
      by (simp add: clear_def add_def)
  qed simp_all
  ultimately show ?thesis
    by (simp add: len_def to_msg_length)
qed

theorem C7_repeated_add_witness:
  "any (EVENTS_excerpt :: unit catalog) (add pcmEnable False (add pcmEnable False
      (Events_init (EVENTS_excerpt :: unit catalog)))) ENABLE \<and>
   length (to_msg (EVENTS_excerpt :: unit catalog) (add pcmEnable False (add pcmEnable False
      (Events_init (EVENTS_excerpt :: unit catalog))))) = 2"
proof -
  let ?s = "Events_init (EVENTS_excerpt :: unit catalog)"
  have one: "any (EVENTS_excerpt :: unit catalog) (add pcmEnable False ?s) ENABLE"
    by (simp add: any_def get_types_def EVENTS_excerpt_def excerpt_ids)
  have len1: "length (to_msg (EVENTS_excerpt :: unit catalog) (add pcmEnable False ?s)) = 1"
    by (simp add: to_msg_length)
  show ?thesis
    using C7_repeated_add [of "EVENTS_excerpt :: unit catalog" pcmEnable False ?s ENABLE]
      one len1
    by simp
qed

subsection \<open>The catalog is written to\<close>




subsection \<open>Unknown identifiers in create_alerts\<close>

text \<open>
  C3 says that an identifier the catalog does not know raises no exception in any query.
  \<open>any\<close> and \<open>to_msg\<close> read the catalog with \<open>EVENTS.get(e, {})\<close> (the theorems of C5 and C10
  cover them), but \<open>create_alerts\<close> subscripts \<open>EVENTS[e]\<close>: whenever an identifier without a
  catalog entry is in the active list, \<open>create_alerts\<close> raises, for every list of event types
  and every argument list. With only the unknown identifier active the exception is the
  \<open>KeyError\<close> of line 74.
\<close>


theorem C3_create_alerts_raises_on_unknown:
  assumes "EVENTS e = None" and "e \<in> set (events s)"
  shows "\<exists>err. fst (create_alerts DT_CTRL EVENT_NAME EVENTS s event_types callback_args) = Inl err"
  unfolding create_alerts_def Let_def
  using assms(1) same_catalog_refl assms(2) by (rule create_alerts_loop_unknown)

theorem C3_create_alerts_raises_on_unknown_witness:
  "(EVENTS_excerpt :: unit catalog) 999 = None \<and>
   fst (create_alerts (1 / 100) EVENT_NAME_excerpt (EVENTS_excerpt :: unit catalog)
         (add 999 False (Events_init (EVENTS_excerpt :: unit catalog))) [WARNING] None)
     = Inl KeyError \<and>
   (\<exists>err. fst (create_alerts (1 / 100) EVENT_NAME_excerpt (EVENTS_excerpt :: unit catalog)
         (add 999 False (Events_init (EVENTS_excerpt :: unit catalog))) [WARNING] None)
     = Inl err)"
proof -
  have unknown: "(EVENTS_excerpt :: unit catalog) 999 = None"
    by (simp add: EVENTS_excerpt_def excerpt_ids)
  have active: "999 \<in> set (events (add 999 False (Events_init (EVENTS_excerpt :: unit catalog))))"
    by simp
  have raised: "fst (create_alerts (1 / 100) EVENT_NAME_excerpt (EVENTS_excerpt :: unit catalog)
         (add 999 False (Events_init (EVENTS_excerpt :: unit catalog))) [WARNING] None)
     = Inl KeyError"
    by (simp add: create_alerts_def unknown)
  show ?thesis
    using unknown raised
      C3_create_alerts_raises_on_unknown [where EVENTS = "EVENTS_excerpt :: unit catalog"
        and e = 999, OF unknown active, of "1 / 100" EVENT_NAME_excerpt "[WARNING]" None]
    by simp
qed

subsection \<open>The creation delay\<close>




subsection \<open>The alert rate\<close>



end
